theory Spec2Isabelle
  imports Complex_Main
begin

section \<open>JavaScript library functions used by the screen\<close>

text \<open>
  The numbers of the screen are integer-valued doubles. They are modelled as \<open>int\<close>, and
  the places where the code computes a number that can leave the exactly representable
  range (the tick's \<open>timeLeft - 1\<close>, \<open>parseInt\<close>, \<open>parsedMinutes * 60\<close>) round the
  exact result to the nearest double, ties to even (\<open>roundToDouble\<close>). Magnitudes from
  \<open>2 ^ 1024\<close> on, which the code holds as \<open>Infinity\<close>, are outside the model, and so are
  the texts \<open>toString\<close> prints from \<open>10 ^ 21\<close> on and the quotient \<open>seconds / 60\<close>
  above \<open>2 ^ 53\<close>: the theorems on those functions carry the bound as a hypothesis. The
  count of completed pomodoros grows by one per completed phase and stays exact. \<open>NaN\<close> is
  the \<open>None\<close> of an option. Strings are lists of code units restricted to the range of
  \<open>char\<close>.
\<close>

fun expo :: "nat \<Rightarrow> nat" where
  \<comment> \<open>how many low bits a magnitude loses in a significand of 53 bits\<close>
  "expo a = (if a < 2 ^ 53 then 0 else Suc (expo (a div 2)))"

declare expo.simps [simp del]

definition roundToDouble :: "int \<Rightarrow> int" where
  \<comment> \<open>the double nearest to an integer, ties to the even significand\<close>
  "roundToDouble x =
     (let a = nat \<bar>x\<bar>;
          k = expo a;
          q = a div 2 ^ k;
          r = a mod 2 ^ k;
          m = (if 2 * r > 2 ^ k \<or> (2 * r = 2 ^ k \<and> odd q) then q + 1 else q)
      in sgn x * int (m * 2 ^ k))"

definition isDouble :: "int \<Rightarrow> bool" where
  \<comment> \<open>the integer is a double: its significand fits 53 bits\<close>
  "isDouble x = (2 ^ expo (nat \<bar>x\<bar>) dvd nat \<bar>x\<bar>)"

definition js_rem :: "int \<Rightarrow> int \<Rightarrow> int" where
  \<comment> \<open>the \<open>%\<close> operator on integers: the result takes the sign of the dividend (the
      divisor is a non-zero constant wherever the screen uses it)\<close>
  "js_rem a b = sgn a * (\<bar>a\<bar> mod \<bar>b\<bar>)"

definition digit_char :: "nat \<Rightarrow> char" where
  "digit_char d = ''0123456789'' ! d"

fun nat_toString :: "nat \<Rightarrow> string" where
  "nat_toString n = (if n < 10 then [digit_char n] else nat_toString (n div 10) @ [digit_char (n mod 10)])"

declare nat_toString.simps [simp del]

definition toString :: "int \<Rightarrow> string" where
  \<comment> \<open>\<open>Number.prototype.toString()\<close> on an integer of magnitude below \<open>10 ^ 21\<close>
      (from there on the code prints exponent notation)\<close>
  "toString i = (if i < 0 then CHR ''-'' # nat_toString (nat (- i)) else nat_toString (nat i))"

definition padStart :: "nat \<Rightarrow> string \<Rightarrow> string \<Rightarrow> string" where
  \<comment> \<open>\<open>s.padStart(targetLength, padString)\<close>\<close>
  "padStart targetLength padString s =
     (if targetLength \<le> length s \<or> padString = [] then s
      else take (targetLength - length s)
             (concat (replicate (targetLength - length s) padString)) @ s)"

definition isWhiteSpace :: "char \<Rightarrow> bool" where
  \<comment> \<open>WhiteSpace and LineTerminator code units below 256: TAB, LF, VT, FF, CR, SP, NBSP\<close>
  "isWhiteSpace c = (of_char c \<in> {9, 10, 11, 12, 13, 32, 160 :: nat})"

definition trim :: "string \<Rightarrow> string" where
  \<comment> \<open>\<open>String.prototype.trim()\<close>\<close>
  "trim s = rev (dropWhile isWhiteSpace (rev (dropWhile isWhiteSpace s)))"

definition isDigit :: "char \<Rightarrow> bool" where
  "isDigit c = (48 \<le> (of_char c :: nat) \<and> (of_char c :: nat) \<le> 57)"

definition digitsValue :: "string \<Rightarrow> int" where
  \<comment> \<open>the value of a string of decimal digits\<close>
  "digitsValue ds = foldl (\<lambda>acc c. 10 * acc + (int (of_char c) - 48)) 0 ds"

definition parseInt :: "string \<Rightarrow> int option" where
  \<comment> \<open>\<open>parseInt(text, 10)\<close>: leading white space is skipped, one sign is read, then the
      longest run of decimal digits; an empty run gives \<open>NaN\<close>, any other the Number
      value of the integer it spells\<close>
  "parseInt text =
     (let S = dropWhile isWhiteSpace text;
          sign = (if S \<noteq> [] \<and> hd S = CHR ''-'' then - 1 else 1 :: int);
          S' = (if S \<noteq> [] \<and> (hd S = CHR ''+'' \<or> hd S = CHR ''-'') then tl S else S);
          Z = takeWhile isDigit S'
      in if Z = [] then None else Some (sign * roundToDouble (digitsValue Z)))"

section \<open>Data model (\<open>src/app/index.tsx\<close>)\<close>

datatype TimerTypeKey = POMODORO | SHORT_BREAK | LONG_BREAK

text \<open>A \<open>Record<TimerTypeKey, X>\<close> has exactly the three keys: a total function.\<close>

definition INITIAL_TIMER_TYPES :: "TimerTypeKey \<Rightarrow> int" where
  "INITIAL_TIMER_TYPES k =
     (case k of POMODORO \<Rightarrow> 25 * 60 | SHORT_BREAK \<Rightarrow> 5 * 60 | LONG_BREAK \<Rightarrow> 15 * 60)"

record Task =
  task_id :: nat
  name :: string
  completed :: bool
  priority :: int
  pomodoroSessions :: int
  createdAt :: string

text \<open>The component state of \<open>PomodoroScreen\<close>: one field per \<open>useState\<close>.\<close>

record screen =
  timerType :: TimerTypeKey
  timerDurations :: "TimerTypeKey \<Rightarrow> int"
  timeLeft :: int
  isActive :: bool
  pomodoroCount :: int
  isMuted :: bool
  settingsVisible :: bool
  tempTimerDurations :: "TimerTypeKey \<Rightarrow> string"
  tasks :: "Task list"
  newTaskName :: string

definition initialScreen :: screen where
  "initialScreen =
     \<lparr> timerType = POMODORO,
       timerDurations = INITIAL_TIMER_TYPES,
       timeLeft = INITIAL_TIMER_TYPES POMODORO,
       isActive = False,
       pomodoroCount = 0,
       isMuted = False,
       settingsVisible = False,
       tempTimerDurations = (\<lambda>k. toString (INITIAL_TIMER_TYPES k div 60)),
       tasks = [],
       newTaskName = [] \<rparr>"

section \<open>The timer\<close>

subsection \<open>The timer effect\<close>

text \<open>
  The body of the timer \<open>useEffect\<close>. With the timer active and time left it installs an
  interval whose callback is \<open>setTimeLeft(timeLeft - 1)\<close> for the captured
  \<open>timeLeft\<close>; with the timer active at zero it vibrates (unless muted) and moves to the next
  phase; otherwise it does nothing.
\<close>

datatype effect_outcome =
    IntervalSet int          \<comment> \<open>the value the interval's callback will store in \<open>timeLeft\<close>\<close>
  | PhaseCompleted bool screen  \<comment> \<open>vibrated?, the state after the batched updates\<close>
  | NoEffect

definition phaseCompletion :: "screen \<Rightarrow> screen" where
  "phaseCompletion s =
     (if timerType s = POMODORO then
        (let newCount = pomodoroCount s + 1 in
         if js_rem newCount 4 = 0
         then s\<lparr>pomodoroCount := newCount, timerType := LONG_BREAK,
                timeLeft := timerDurations s LONG_BREAK\<rparr>
         else s\<lparr>pomodoroCount := newCount, timerType := SHORT_BREAK,
                timeLeft := timerDurations s SHORT_BREAK\<rparr>)
      else s\<lparr>timerType := POMODORO, timeLeft := timerDurations s POMODORO\<rparr>)
     \<lparr>isActive := False\<rparr>"

definition timerEffect :: "screen \<Rightarrow> effect_outcome" where
  "timerEffect s =
     (if isActive s \<and> timeLeft s > 0 then IntervalSet (roundToDouble (timeLeft s - 1))
      else if isActive s \<and> timeLeft s = 0 then PhaseCompleted (\<not> isMuted s) (phaseCompletion s)
      else NoEffect)"

text \<open>
  How the runtime drives the effect. \<open>intervalFires\<close> is the interval's callback running
  (one tick, when an interval is installed); \<open>runEffect\<close> is the effect running on the state
  just rendered. One elapsed second is the callback followed by the effect of the render it
  causes.
\<close>

definition intervalFires :: "screen \<Rightarrow> screen" where
  "intervalFires s = (case timerEffect s of IntervalSet v \<Rightarrow> s\<lparr>timeLeft := v\<rparr> | _ \<Rightarrow> s)"

definition runEffect :: "screen \<Rightarrow> screen" where
  "runEffect s = (case timerEffect s of PhaseCompleted _ s' \<Rightarrow> s' | _ \<Rightarrow> s)"

definition completes :: "screen \<Rightarrow> bool" where
  "completes s = (case timerEffect s of PhaseCompleted _ _ \<Rightarrow> True | _ \<Rightarrow> False)"

definition second :: "screen \<Rightarrow> screen" where
  "second s = runEffect (intervalFires s)"

fun completions :: "nat \<Rightarrow> screen \<Rightarrow> nat" where
  \<comment> \<open>how many phase completions fire during \<open>n\<close> elapsed seconds\<close>
  "completions 0 s = 0"
| "completions (Suc n) s =
     (if completes (intervalFires s) then 1 else 0) + completions n (second s)"

subsection \<open>Display\<close>

definition formatTime :: "int \<Rightarrow> string" where
  \<comment> \<open>for \<open>seconds\<close> up to \<open>2 ^ 53\<close>, where \<open>Math.floor(seconds / 60)\<close> is
      \<open>seconds div 60\<close>\<close>
  "formatTime seconds =
     (let minutes = seconds div 60;
          remainingSeconds = js_rem seconds 60
      in padStart 2 ''0'' (toString minutes) @ '':'' @ padStart 2 ''0'' (toString remainingSeconds))"


subsection \<open>Controls\<close>

definition toggleTimer :: "screen \<Rightarrow> screen" where
  "toggleTimer s = s\<lparr>isActive := \<not> isActive s\<rparr>"

definition resetTimer :: "screen \<Rightarrow> screen" where
  "resetTimer s = s\<lparr>isActive := False, timeLeft := timerDurations s (timerType s)\<rparr>"

definition switchTimerType :: "TimerTypeKey \<Rightarrow> screen \<Rightarrow> screen" where
  "switchTimerType type s =
     s\<lparr>isActive := False, timerType := type, timeLeft := timerDurations s type\<rparr>"

subsection \<open>Settings\<close>

definition handleDurationChange :: "TimerTypeKey \<Rightarrow> int \<Rightarrow> screen \<Rightarrow> screen" where
  "handleDurationChange type durationInSeconds s =
     (let s' = s\<lparr>timerDurations := (timerDurations s)(type := durationInSeconds)\<rparr> in
      if timerType s = type \<and> \<not> isActive s then s'\<lparr>timeLeft := durationInSeconds\<rparr> else s')"

definition handleTempDurationChange :: "TimerTypeKey \<Rightarrow> string \<Rightarrow> screen \<Rightarrow> screen" where
  "handleTempDurationChange type text s =
     s\<lparr>tempTimerDurations := (tempTimerDurations s)(type := text)\<rparr>"

text \<open>
  One round of the \<open>for (const typeKey in tempTimerDurations)\<close> loop of
  \<open>handleSaveSettings\<close>, and the loop over the three keys in their insertion order.
\<close>

definition saveOne ::
  "(TimerTypeKey \<Rightarrow> string) \<Rightarrow> (TimerTypeKey \<Rightarrow> int) \<Rightarrow> TimerTypeKey \<Rightarrow> (TimerTypeKey \<Rightarrow> int)" where
  "saveOne temp newDurationsInSeconds type =
     (case parseInt (temp type) of
        Some parsedMinutes \<Rightarrow>
          if parsedMinutes \<ge> 0
          then newDurationsInSeconds(type := roundToDouble (parsedMinutes * 60))
          else newDurationsInSeconds(type := INITIAL_TIMER_TYPES type)
      | None \<Rightarrow> newDurationsInSeconds(type := INITIAL_TIMER_TYPES type))"

definition newDurations :: "(TimerTypeKey \<Rightarrow> string) \<Rightarrow> (TimerTypeKey \<Rightarrow> int)" where
  "newDurations temp = foldl (saveOne temp) INITIAL_TIMER_TYPES [POMODORO, SHORT_BREAK, LONG_BREAK]"

definition handleSaveSettings :: "screen \<Rightarrow> screen" where
  "handleSaveSettings s =
     (let newDurationsInSeconds = newDurations (tempTimerDurations s);
          s1 = s\<lparr>timerDurations := newDurationsInSeconds\<rparr>;
          s2 = (if \<not> isActive s then s1\<lparr>timeLeft := newDurationsInSeconds (timerType s)\<rparr> else s1)
      in s2\<lparr>settingsVisible := False\<rparr>)"

definition handleCancelSettings :: "screen \<Rightarrow> screen" where
  "handleCancelSettings s = s\<lparr>settingsVisible := False\<rparr>"


subsection \<open>The timer's operations as events\<close>

datatype timer_op =
    ToggleTimer
  | ResetTimer
  | SwitchTimerType TimerTypeKey
  | IntervalFires
  | RunEffect
  | HandleDurationChange TimerTypeKey int
  | HandleTempDurationChange TimerTypeKey string
  | HandleSaveSettings

fun apply_op :: "timer_op \<Rightarrow> screen \<Rightarrow> screen" where
  "apply_op ToggleTimer s = toggleTimer s"
| "apply_op ResetTimer s = resetTimer s"
| "apply_op (SwitchTimerType type) s = switchTimerType type s"
| "apply_op IntervalFires s = intervalFires s"
| "apply_op RunEffect s = runEffect s"
| "apply_op (HandleDurationChange type d) s = handleDurationChange type d s"
| "apply_op (HandleTempDurationChange type text) s = handleTempDurationChange type text s"
| "apply_op HandleSaveSettings s = handleSaveSettings s"

definition run :: "timer_op list \<Rightarrow> screen \<Rightarrow> screen" where
  "run ops s = foldl (\<lambda>s' op. apply_op op s') s ops"

definition timer_inv :: "screen \<Rightarrow> bool" where
  \<comment> \<open>the time left does not exceed the duration of the current phase\<close>
  "timer_inv s = (timeLeft s \<le> timerDurations s (timerType s))"

fun keeps_bound :: "timer_op \<Rightarrow> screen \<Rightarrow> bool" where
  \<comment> \<open>false only for a change of the current phase's duration, made while the timer runs,
      to less than the time left\<close>
  "keeps_bound HandleSaveSettings s =
     (if isActive s then timeLeft s \<le> newDurations (tempTimerDurations s) (timerType s) else True)"
| "keeps_bound (HandleDurationChange type d) s =
     (if isActive s \<and> type = timerType s then timeLeft s \<le> d else True)"
| "keeps_bound _ s = True"

fun numberArg :: "timer_op \<Rightarrow> bool" where
  \<comment> \<open>the argument \<open>durationInSeconds: number\<close> is a double\<close>
  "numberArg (HandleDurationChange type d) = isDouble d"
| "numberArg _ = True"

fun admissible :: "timer_op list \<Rightarrow> screen \<Rightarrow> bool" where
  "admissible [] s = True"
| "admissible (op # ops) s =
     (numberArg op \<and> keeps_bound op s \<and> admissible ops (apply_op op s))"

definition numbersOk :: "screen \<Rightarrow> bool" where
  \<comment> \<open>the time left and the three durations are doubles\<close>
  "numbersOk s =
     (isDouble (timeLeft s) \<and> isDouble (timerDurations s POMODORO)
      \<and> isDouble (timerDurations s SHORT_BREAK) \<and> isDouble (timerDurations s LONG_BREAK))"

section \<open>The task list\<close>

subsection \<open>The store\<close>

text \<open>
  The table \<open>tasks\<close> created by \<open>migrateDbIfNeeded\<close>: \<open>id INTEGER PRIMARY KEY
  AUTOINCREMENT\<close>, \<open>completed\<close> and \<open>pomodoroSessions\<close> default 0, \<open>createdAt\<close>
  defaults to the current timestamp. A call of the store may reject; whether it does is a
  condition of the store at the call.
\<close>

record task_row =
  row_id :: nat
  row_name :: string
  row_completed :: int
  row_priority :: int
  row_pomodoroSessions :: int
  row_createdAt :: string

record database =
  rows :: "task_row list"
  sequence :: nat           \<comment> \<open>the largest rowid AUTOINCREMENT has handed out\<close>
  currentTimestamp :: string
  insertRejects :: bool
  selectRejects :: bool

datatype store_error = StoreError

definition runInsert :: "database \<Rightarrow> string \<Rightarrow> int \<Rightarrow> store_error + (database \<times> nat)" where
  \<comment> \<open>\<open>INSERT INTO tasks (name, priority) VALUES (?, ?)\<close>, returning \<open>lastInsertRowId\<close>\<close>
  "runInsert db nm prio =
     (if insertRejects db then Inl StoreError
      else
        (let newId = Suc (fold max (map row_id (rows db)) (sequence db));
             row = \<lparr> row_id = newId, row_name = nm, row_completed = 0, row_priority = prio,
                     row_pomodoroSessions = 0, row_createdAt = currentTimestamp db \<rparr>
         in Inr (db\<lparr>rows := rows db @ [row], sequence := newId\<rparr>, newId)))"

definition getFirstById :: "database \<Rightarrow> nat \<Rightarrow> store_error + task_row option" where
  \<comment> \<open>\<open>SELECT * FROM tasks WHERE id = ?\<close>, the first row or \<open>null\<close>\<close>
  "getFirstById db i =
     (if selectRejects db then Inl StoreError else Inr (find (\<lambda>r. row_id r = i) (rows db)))"

definition toTask :: "task_row \<Rightarrow> Task" where
  \<comment> \<open>\<open>{ ...newTask, completed: !!newTask.completed }\<close>\<close>
  "toTask r =
     \<lparr> task_id = row_id r, name = row_name r, completed = (row_completed r \<noteq> 0),
       priority = row_priority r, pomodoroSessions = row_pomodoroSessions r,
       createdAt = row_createdAt r \<rparr>"

subsection \<open>\<open>addTask\<close>\<close>

text \<open>An error of the store is caught and logged; the state set so far stays.\<close>

definition addTask :: "string \<Rightarrow> int \<Rightarrow> database \<times> screen \<Rightarrow> database \<times> screen" where
  "addTask nm prio st =
     (let (db, s) = st in
      if trim nm = [] then (db, s)
      else
        (case runInsert db (trim nm) prio of
           Inl err \<Rightarrow> (db, s)
         | Inr (db', newTaskId) \<Rightarrow>
             (case getFirstById db' newTaskId of
                Inl err \<Rightarrow> (db', s)
              | Inr None \<Rightarrow> (db', s)
              | Inr (Some newTask) \<Rightarrow> (db', s\<lparr>tasks := tasks s @ [toTask newTask]\<rparr>))))"

definition priorityDescending :: "Task list \<Rightarrow> bool" where
  "priorityDescending ts = sorted_wrt (\<lambda>a b. priority a \<ge> priority b) ts"

definition emptyDatabase :: database where
  "emptyDatabase = \<lparr> rows = [], sequence = 0, currentTimestamp = ''2025-01-01 00:00:00'',
     insertRejects = False, selectRejects = False \<rparr>"

section \<open>Rounding to a double\<close>

lemma expo_small: "a < 2 ^ 53 \<Longrightarrow> expo a = 0"
  by (subst expo.simps) simp

lemma expo_large: "\<not> a < 2 ^ 53 \<Longrightarrow> expo a = Suc (expo (a div 2))"
  by (subst expo.simps) simp

lemma div_expo_less: "a div 2 ^ expo a < 2 ^ 53"
proof (induction a rule: expo.induct)
  case (1 a)
  show ?case
  proof (cases "a < 2 ^ 53")
    case True
    then show ?thesis by (simp add: expo_small)
  next
    case False
    then have "a div 2 div 2 ^ expo (a div 2) < 2 ^ 53" using 1 by simp
    then show ?thesis using False by (simp add: expo_large div_mult2_eq)
  qed
qed

lemma expo_mono: "a \<le> b \<Longrightarrow> expo a \<le> expo b"
proof (induction a arbitrary: b rule: expo.induct)
  case (1 a)
  show ?case
  proof (cases "a < 2 ^ 53")
    case True
    then show ?thesis by (simp add: expo_small)
  next
    case False
    then have b: "\<not> b < 2 ^ 53" using "1.prems" by simp
    have "a div 2 \<le> b div 2" using "1.prems" by (rule div_le_mono)
    then have "expo (a div 2) \<le> expo (b div 2)" using "1.IH" False by simp
    then show ?thesis using False b by (simp add: expo_large)
  qed
qed

lemma expo_shift: "n < 2 ^ 53 \<Longrightarrow> expo (n * 2 ^ k) \<le> k"
proof (induction k)
  case 0
  then show ?case by (simp add: expo_small)
next
  case (Suc k)
  show ?case
  proof (cases "n * 2 ^ Suc k < 2 ^ 53")
    case True
    then show ?thesis by (simp add: expo_small)
  next
    case False
    have "n * 2 ^ Suc k div 2 = n * 2 ^ k" by simp
    then show ?thesis using False Suc by (simp add: expo_large)
  qed
qed

lemma roundToDouble_small: "\<bar>x\<bar> < 2 ^ 53 \<Longrightarrow> roundToDouble x = x"
proof -
  assume "\<bar>x\<bar> < 2 ^ 53"
  then have "nat \<bar>x\<bar> < 2 ^ 53" by simp
  then have "expo (nat \<bar>x\<bar>) = 0" by (rule expo_small)
  then show ?thesis
    by (simp add: roundToDouble_def Let_def sgn_if)
qed

lemma isDouble_small: "\<bar>x\<bar> < 2 ^ 53 \<Longrightarrow> isDouble x"
proof -
  assume "\<bar>x\<bar> < 2 ^ 53"
  then have "nat \<bar>x\<bar> < 2 ^ 53" by simp
  then have "expo (nat \<bar>x\<bar>) = 0" by (rule expo_small)
  then show ?thesis by (simp add: isDouble_def)
qed

lemma roundToDouble_isDouble:
  assumes "isDouble x"
  shows "roundToDouble x = x"
proof -
  define a where "a = nat \<bar>x\<bar>"
  define k where "k = expo a"
  have d: "2 ^ k dvd a" using assms by (simp add: isDouble_def a_def k_def)
  then have r: "a mod 2 ^ k = 0" by (simp add: dvd_eq_mod_eq_0)
  have q: "a div 2 ^ k * 2 ^ k = a" using d by (rule dvd_div_mult_self)
  have "roundToDouble x = sgn x * int (a div 2 ^ k * 2 ^ k)"
    unfolding roundToDouble_def Let_def a_def [symmetric] k_def [symmetric] r by simp
  also have "\<dots> = sgn x * \<bar>x\<bar>" by (simp only: q) (simp add: a_def)
  also have "\<dots> = x" by (simp add: sgn_if)
  finally show ?thesis .
qed

lemma abs_roundToDouble:
  "\<exists>m. m \<le> 2 ^ 53 \<and> nat \<bar>roundToDouble x\<bar> = m * 2 ^ expo (nat \<bar>x\<bar>)"
proof -
  define a where "a = nat \<bar>x\<bar>"
  define k where "k = expo a"
  define q where "q = a div 2 ^ k"
  define r where "r = a mod 2 ^ k"
  define m where "m = (if 2 * r > 2 ^ k \<or> (2 * r = 2 ^ k \<and> odd q) then q + 1 else q)"
  have "q < 2 ^ 53" unfolding q_def k_def by (rule div_expo_less)
  then have m: "m \<le> 2 ^ 53" by (simp add: m_def)
  have "roundToDouble x = sgn x * int (m * 2 ^ k)"
    by (simp add: roundToDouble_def Let_def a_def k_def q_def r_def m_def)
  then have "\<bar>roundToDouble x\<bar> = \<bar>sgn x\<bar> * int (m * 2 ^ k)"
    by (simp add: abs_mult)
  moreover have "x = 0 \<Longrightarrow> m = 0"
    by (simp add: m_def q_def r_def a_def)
  ultimately have "nat \<bar>roundToDouble x\<bar> = m * 2 ^ k"
    by (cases "x = 0") (simp_all add: abs_sgn_eq nat_mult_distrib nat_power_eq)
  then show ?thesis using m by (auto simp: k_def a_def)
qed

lemma isDouble_shift: "m \<le> 2 ^ 53 \<Longrightarrow> 2 ^ expo (m * 2 ^ k) dvd m * 2 ^ k"
proof (cases "m < 2 ^ 53")
  case True
  then have "expo (m * 2 ^ k) \<le> k" by (rule expo_shift)
  then have "(2::nat) ^ expo (m * 2 ^ k) dvd 2 ^ k" by (rule le_imp_power_dvd)
  then show ?thesis by (rule dvd_mult)
next
  case False
  assume "m \<le> 2 ^ 53"
  then have m: "m = 2 ^ 52 * 2" using False by simp
  have "expo (2 ^ 52 * 2 ^ Suc k) \<le> Suc k" by (rule expo_shift) simp
  then have "(2::nat) ^ expo (2 ^ 52 * 2 ^ Suc k) dvd 2 ^ Suc k" by (rule le_imp_power_dvd)
  then have "(2::nat) ^ expo (2 ^ 52 * 2 ^ Suc k) dvd 2 ^ 52 * 2 ^ Suc k" by (rule dvd_mult)
  moreover have "m * 2 ^ k = 2 ^ 52 * 2 ^ Suc k" by (simp add: m)
  ultimately show ?thesis by simp
qed

lemma isDouble_roundToDouble: "isDouble (roundToDouble x)"
proof -
  obtain m where "m \<le> 2 ^ 53" "nat \<bar>roundToDouble x\<bar> = m * 2 ^ expo (nat \<bar>x\<bar>)"
    using abs_roundToDouble by blast
  then show ?thesis
    using isDouble_shift [of m "expo (nat \<bar>x\<bar>)"] by (simp add: isDouble_def)
qed

lemma roundToDouble_nonneg: "0 \<le> x \<Longrightarrow> 0 \<le> roundToDouble x"
  by (simp add: roundToDouble_def Let_def sgn_if)

lemma roundToDouble_pred_le:
  assumes "0 < x" and "isDouble x"
  shows "roundToDouble (x - 1) \<le> x"
proof -
  define a where "a = nat (x - 1)"
  define b where "b = nat x"
  define k where "k = expo a"
  define q where "q = a div 2 ^ k"
  have ab: "b = Suc a" "int b = x" using assms(1) by (simp_all add: a_def b_def)
  have "expo a \<le> expo b" by (rule expo_mono) (simp add: ab)
  then have "(2::nat) ^ k dvd 2 ^ expo b" unfolding k_def by (rule le_imp_power_dvd)
  moreover have "2 ^ expo b dvd b" using assms by (simp add: isDouble_def b_def)
  ultimately have "2 ^ k dvd b" by (rule dvd_trans)
  then obtain c where c: "b = 2 ^ k * c" by (auto elim: dvdE)
  have "q < c"
  proof (rule ccontr)
    assume "\<not> q < c"
    then have "c \<le> q" by simp
    then have "2 ^ k * c \<le> 2 ^ k * q" by simp
    also have "\<dots> \<le> a" unfolding q_def by simp
    finally show False using c ab by simp
  qed
  then have "q + 1 \<le> c" by simp
  then have "(q + 1) * 2 ^ k \<le> c * 2 ^ k" by (rule mult_le_mono1)
  then have le: "(q + 1) * 2 ^ k \<le> b" by (simp only: c mult.commute)
  have abs: "nat \<bar>x - 1\<bar> = a" using assms(1) by (simp add: a_def)
  define r where "r = a mod 2 ^ k"
  define m where "m = (if 2 * r > 2 ^ k \<or> (2 * r = 2 ^ k \<and> odd q) then q + 1 else q)"
  have m: "m \<le> q + 1" by (simp add: m_def)
  have rd: "roundToDouble (x - 1) = sgn (x - 1) * int (m * 2 ^ k)"
    unfolding roundToDouble_def Let_def abs k_def [symmetric] q_def [symmetric]
      r_def [symmetric] m_def [symmetric] ..
  have "sgn (x - 1) * int (m * 2 ^ k) \<le> int (m * 2 ^ k)"
    using assms(1) by (cases "x = 1") (simp_all add: sgn_if)
  also have "\<dots> \<le> int ((q + 1) * 2 ^ k)"
    using m by (simp only: of_nat_le_iff mult_le_mono1)
  also have "\<dots> \<le> int b" using le by (simp only: of_nat_le_iff)
  finally show ?thesis unfolding rd using ab by simp
qed

lemma roundToDouble_examples:
  "roundToDouble 1500 = 1500" "roundToDouble (- 5) = - 5"
  "roundToDouble 9007199254740993 = 9007199254740992"
  "roundToDouble 9007199254741019 = 9007199254741020"
  "roundToDouble 36028797018964020 = 36028797018964016"
proof -
  have e: "expo 9007199254740993 = 1" "expo 9007199254741019 = 1" "expo 36028797018964020 = 3"
    by (simp_all add: expo.simps)
  show "roundToDouble 1500 = 1500" "roundToDouble (- 5) = - 5"
    by (simp_all add: roundToDouble_small)
  show "roundToDouble 9007199254740993 = 9007199254740992"
    "roundToDouble 9007199254741019 = 9007199254741020"
    "roundToDouble 36028797018964020 = 36028797018964016"
    by (simp_all add: roundToDouble_def Let_def e)
qed

section \<open>Sanity checks of the library model\<close>

lemma parseInt_examples: "parseInt ''abc'' = None" "parseInt ''-5'' = Some (- 5)" "parseInt '' 12abc'' = Some 12"
  by (simp_all add: parseInt_def isWhiteSpace_def isDigit_def digitsValue_def roundToDouble_small)

lemma toString_examples: "toString 100 = ''100''" "toString 7 = ''7''" "padStart 2 ''0'' (toString 7) = ''07''"
  by (simp_all add: toString_def nat_toString.simps padStart_def digit_char_def)

lemma trim_examples: "trim ''   '' = ''''" "trim '' a b '' = ''a b''"
  by (simp_all add: trim_def isWhiteSpace_def)

section \<open>Phase completion\<close>

lemma js_rem_4_eq_0_iff: "js_rem a 4 = 0 \<longleftrightarrow> a mod 4 = 0"
  unfolding js_rem_def
  by (cases "a < 0"; cases "a = 0") (auto simp: sgn_if abs_if zmod_zminus1_eq_if)

text \<open>
  Claim C1. When the timer is active and the time left is 0, the effect completes the phase:
  a completed POMODORO raises the count by exactly 1 and is followed by LONG_BREAK when the
  new count is a multiple of 4 and by SHORT_BREAK otherwise; a completed break leaves the
  count alone and is followed by POMODORO; in each case the new state has the next phase,
  that phase's configured duration as time left, and the timer stopped.
\<close>

theorem phase_completion:
  assumes "isActive s" and "timeLeft s = 0"
  shows "timerEffect s = PhaseCompleted (\<not> isMuted s) (runEffect s)
    \<and> (timerType s = POMODORO \<longrightarrow>
          pomodoroCount (runEffect s) = pomodoroCount s + 1
        \<and> timerType (runEffect s) =
            (if (pomodoroCount s + 1) mod 4 = 0 then LONG_BREAK else SHORT_BREAK))
    \<and> (timerType s \<noteq> POMODORO \<longrightarrow>
          pomodoroCount (runEffect s) = pomodoroCount s \<and> timerType (runEffect s) = POMODORO)
    \<and> timerDurations (runEffect s) = timerDurations s
    \<and> timeLeft (runEffect s) = timerDurations s (timerType (runEffect s))
    \<and> isActive (runEffect s) = False"
  using assms
  by (simp add: runEffect_def timerEffect_def phaseCompletion_def Let_def js_rem_4_eq_0_iff)

theorem phase_completion_witness:
  "timerType (runEffect (initialScreen\<lparr>isActive := True, timeLeft := 0, pomodoroCount := 3\<rparr>)) = LONG_BREAK
   \<and> pomodoroCount (runEffect (initialScreen\<lparr>isActive := True, timeLeft := 0, pomodoroCount := 3\<rparr>)) = 4
   \<and> timeLeft (runEffect (initialScreen\<lparr>isActive := True, timeLeft := 0, pomodoroCount := 3\<rparr>)) = 900
   \<and> isActive (runEffect (initialScreen\<lparr>isActive := True, timeLeft := 0, pomodoroCount := 3\<rparr>)) = False"
  using phase_completion [of "initialScreen\<lparr>isActive := True, timeLeft := 0, pomodoroCount := 3\<rparr>"]
  by (simp add: initialScreen_def INITIAL_TIMER_TYPES_def)

section \<open>Switching the phase\<close>

text \<open>
  Claim C4. From any state and for any target phase, \<open>switchTimerType\<close> stops the timer,
  selects the target, sets the time left to the target's configured duration, and leaves the
  count of completed pomodoros (and the durations) as they were.
\<close>

theorem switch_phase:
  "isActive (switchTimerType type s) = False
   \<and> timerType (switchTimerType type s) = type
   \<and> timeLeft (switchTimerType type s) = timerDurations s type
   \<and> timerDurations (switchTimerType type s) = timerDurations s
   \<and> pomodoroCount (switchTimerType type s) = pomodoroCount s"
  by (simp add: switchTimerType_def)

theorem switch_phase_witness:
  "isActive (switchTimerType LONG_BREAK (toggleTimer initialScreen)) = False
   \<and> timerType (switchTimerType LONG_BREAK (toggleTimer initialScreen)) = LONG_BREAK
   \<and> timeLeft (switchTimerType LONG_BREAK (toggleTimer initialScreen)) = 900
   \<and> pomodoroCount (switchTimerType LONG_BREAK (toggleTimer initialScreen)) = 0"
  using switch_phase [of LONG_BREAK "toggleTimer initialScreen"]
  by (simp add: toggleTimer_def initialScreen_def INITIAL_TIMER_TYPES_def)

section \<open>Start and pause\<close>

text \<open>
  Claim C5, as the code has it. The one start/pause control, \<open>toggleTimer\<close>, negates the
  running flag and changes nothing else: it starts an idle timer, and on a running timer it
  is not a no-op but pauses it; pressing it twice restores the state.
\<close>

theorem toggle_negates:
  "isActive (toggleTimer s) = (\<not> isActive s)
   \<and> toggleTimer s = s\<lparr>isActive := \<not> isActive s\<rparr>
   \<and> toggleTimer (toggleTimer s) = s"
  by (simp add: toggleTimer_def)

theorem toggle_negates_witness:
  "isActive (toggleTimer initialScreen) = True
   \<and> isActive (toggleTimer (toggleTimer initialScreen)) = False"
  using toggle_negates [of initialScreen] toggle_negates [of "toggleTimer initialScreen"]
  by (simp add: initialScreen_def)

text \<open>
  The claim as the specification words it fails on a running timer: the control changes the
  state, and the timer is no longer running afterwards.
\<close>

theorem start_when_running_counterexample:
  "isActive (toggleTimer initialScreen)
   \<and> toggleTimer (toggleTimer initialScreen) \<noteq> toggleTimer initialScreen
   \<and> isActive (toggleTimer (toggleTimer initialScreen)) = False"
proof -
  have "isActive (toggleTimer (toggleTimer initialScreen)) \<noteq> isActive (toggleTimer initialScreen)"
    by (simp add: toggleTimer_def)
  then have "toggleTimer (toggleTimer initialScreen) \<noteq> toggleTimer initialScreen"
    by metis
  then show ?thesis
    by (simp add: toggleTimer_def initialScreen_def)
qed

section \<open>Saving the settings\<close>

lemma newDurations_at:
  "newDurations temp type =
     (case parseInt (temp type) of
        Some m \<Rightarrow> if m \<ge> 0 then roundToDouble (m * 60) else INITIAL_TIMER_TYPES type
      | None \<Rightarrow> INITIAL_TIMER_TYPES type)"
  by (cases type) (simp_all add: newDurations_def saveOne_def split: option.splits)

lemma INITIAL_TIMER_TYPES_nonneg: "0 \<le> INITIAL_TIMER_TYPES type"
  by (cases type) (simp_all add: INITIAL_TIMER_TYPES_def)

lemma INITIAL_TIMER_TYPES_isDouble: "isDouble (INITIAL_TIMER_TYPES type)"
  by (cases type) (simp_all add: INITIAL_TIMER_TYPES_def isDouble_small)

lemma newDurations_nonneg: "0 \<le> newDurations temp type"
  by (simp add: newDurations_at INITIAL_TIMER_TYPES_nonneg roundToDouble_nonneg split: option.splits)

lemma newDurations_isDouble: "isDouble (newDurations temp type)"
  by (simp add: newDurations_at INITIAL_TIMER_TYPES_isDouble isDouble_roundToDouble
      split: option.splits)

lemma timerDurations_handleSaveSettings:
  "timerDurations (handleSaveSettings s) = newDurations (tempTimerDurations s)"
  by (simp add: handleSaveSettings_def Let_def)

lemma isDigit_not_space_or_sign:
  "isDigit c \<Longrightarrow> \<not> isWhiteSpace c \<and> c \<noteq> CHR ''+'' \<and> c \<noteq> CHR ''-''"
  by (auto simp: isDigit_def isWhiteSpace_def)

lemma takeWhile_digits_prefix:
  "list_all isDigit ds \<Longrightarrow> rest = [] \<or> \<not> isDigit (hd rest) \<Longrightarrow>
     takeWhile isDigit (ds @ rest) = ds"
  by (induction ds) (cases rest; auto)+

lemma digitsValue_nonneg_aux:
  "list_all isDigit ds \<Longrightarrow> 0 \<le> acc \<Longrightarrow>
     0 \<le> foldl (\<lambda>acc c. 10 * acc + (int (of_char c) - 48)) acc ds"
  by (induction ds arbitrary: acc) (simp_all add: isDigit_def)

lemma digitsValue_nonneg: "list_all isDigit ds \<Longrightarrow> 0 \<le> digitsValue ds"
  by (simp add: digitsValue_def digitsValue_nonneg_aux)

lemma parseInt_digits_prefix:
  assumes "ds \<noteq> []" and "list_all isDigit ds" and "rest = [] \<or> \<not> isDigit (hd rest)"
  shows "parseInt (ds @ rest) = Some (roundToDouble (digitsValue ds))"
proof -
  obtain d ds' where ds: "ds = d # ds'" using assms(1) by (cases ds) auto
  then have d: "isDigit d" using assms(2) by simp
  have ws: "dropWhile isWhiteSpace (ds @ rest) = ds @ rest"
    using isDigit_not_space_or_sign [OF d] by (simp add: ds)
  have hd: "hd (ds @ rest) = d" by (simp add: ds)
  show ?thesis
    using isDigit_not_space_or_sign [OF d] takeWhile_digits_prefix [OF assms(2,3)] assms(1)
    by (simp add: parseInt_def Let_def ws hd)
qed

text \<open>
  Claim C6, as the code has it. On save, a duration text in which \<open>parseInt\<close> finds no
  number (such as "abc") or a negative one (such as "-5") commits that phase's default
  duration (1500 seconds for POMODORO). A text that starts with decimal digits counts as the
  number those digits spell, whatever follows them; a text read as \<open>m \<ge> 0\<close> minutes commits
  \<open>m * 60\<close> seconds as long as that product is at most \<open>2 ^ 53\<close>. The committed duration is
  never negative, and the save goes through (the dialog closes).
\<close>

theorem save_settings_durations:
  "(parseInt (tempTimerDurations s type) = None \<longrightarrow>
      timerDurations (handleSaveSettings s) type = INITIAL_TIMER_TYPES type)
   \<and> (\<forall>m. parseInt (tempTimerDurations s type) = Some m \<and> m < 0 \<longrightarrow>
      timerDurations (handleSaveSettings s) type = INITIAL_TIMER_TYPES type)
   \<and> (\<forall>m. parseInt (tempTimerDurations s type) = Some m \<and> 0 \<le> m \<and> m * 60 \<le> 2 ^ 53 \<longrightarrow>
      timerDurations (handleSaveSettings s) type = m * 60)
   \<and> (\<forall>ds rest. tempTimerDurations s type = ds @ rest \<and> ds \<noteq> [] \<and> list_all isDigit ds
         \<and> (rest = [] \<or> \<not> isDigit (hd rest)) \<and> digitsValue ds * 60 \<le> 2 ^ 53 \<longrightarrow>
      timerDurations (handleSaveSettings s) type = digitsValue ds * 60)
   \<and> 0 \<le> timerDurations (handleSaveSettings s) type
   \<and> settingsVisible (handleSaveSettings s) = False
   \<and> INITIAL_TIMER_TYPES POMODORO = 1500
   \<and> parseInt ''abc'' = None \<and> parseInt ''-5'' = Some (- 5)"
proof -
  have exact: "roundToDouble (m * 60) = m * 60" if "0 \<le> m" "m * 60 \<le> 2 ^ 53" for m :: int
  proof (cases "m * 60 < 2 ^ 53")
    case True
    then show ?thesis using that by (intro roundToDouble_small) simp
  next
    case False
    then have "m * 60 = 2 ^ 53" using that by simp
    then have "(60::int) dvd 2 ^ 53" by (metis dvd_triv_right)
    then show ?thesis by simp
  qed
  have prefix: "timerDurations (handleSaveSettings s) type = digitsValue ds * 60"
    if "tempTimerDurations s type = ds @ rest" "ds \<noteq> []" "list_all isDigit ds"
      "rest = [] \<or> \<not> isDigit (hd rest)" "digitsValue ds * 60 \<le> 2 ^ 53" for ds rest
  proof -
    have n: "0 \<le> digitsValue ds" using that(3) by (rule digitsValue_nonneg)
    then have "\<bar>digitsValue ds\<bar> < 2 ^ 53" using that(5) by simp
    then have "roundToDouble (digitsValue ds) = digitsValue ds" by (rule roundToDouble_small)
    then have "parseInt (tempTimerDurations s type) = Some (digitsValue ds)"
      using parseInt_digits_prefix [OF that(2,3,4)] that(1) by simp
    then show ?thesis
      using n exact [OF n that(5)] by (simp add: timerDurations_handleSaveSettings newDurations_at)
  qed
  have "settingsVisible (handleSaveSettings s) = False"
    by (simp add: handleSaveSettings_def Let_def)
  moreover have "INITIAL_TIMER_TYPES POMODORO = 1500"
    by (simp add: INITIAL_TIMER_TYPES_def)
  moreover have "parseInt ''abc'' = None" "parseInt ''-5'' = Some (- 5)"
    by (simp_all add: parseInt_def isWhiteSpace_def isDigit_def digitsValue_def roundToDouble_small)
  ultimately show ?thesis
    using prefix exact newDurations_nonneg [of "tempTimerDurations s" type]
    by (auto simp: timerDurations_handleSaveSettings newDurations_at)
qed

theorem save_settings_durations_witness:
  "timerDurations (handleSaveSettings (handleTempDurationChange POMODORO ''abc'' initialScreen)) POMODORO = 1500
   \<and> timerDurations (handleSaveSettings (handleTempDurationChange POMODORO ''-5'' initialScreen)) POMODORO = 1500
   \<and> timerDurations (handleSaveSettings (handleTempDurationChange POMODORO ''30'' initialScreen)) POMODORO = 1800"
proof -
  have a: "tempTimerDurations (handleTempDurationChange POMODORO t initialScreen) POMODORO = t" for t
    by (simp add: handleTempDurationChange_def)
  have p: "parseInt ''30'' = Some 30"
    by (simp add: parseInt_def isWhiteSpace_def isDigit_def digitsValue_def roundToDouble_small)
  show ?thesis
    using save_settings_durations [of "handleTempDurationChange POMODORO ''abc'' initialScreen" POMODORO]
      save_settings_durations [of "handleTempDurationChange POMODORO ''-5'' initialScreen" POMODORO]
      save_settings_durations [of "handleTempDurationChange POMODORO ''30'' initialScreen" POMODORO]
    by (simp add: a p)
qed

text \<open>
  The claim as the specification words it fails in two ways. A text with a number in front
  and anything behind it ("12abc", "5.9") is not reverted to the default but commits the
  leading number of minutes. And a number of minutes whose product with 60 is not a double
  commits the nearest double, not that many minutes in seconds.
\<close>

theorem save_settings_counterexample:
  "timerDurations (handleSaveSettings (handleTempDurationChange POMODORO ''12abc'' initialScreen)) POMODORO = 720
   \<and> timerDurations (handleSaveSettings (handleTempDurationChange POMODORO ''5.9'' initialScreen)) POMODORO = 300
   \<and> INITIAL_TIMER_TYPES POMODORO = 1500
   \<and> parseInt ''600479950316067'' = Some 600479950316067
   \<and> timerDurations (handleSaveSettings
        (handleTempDurationChange POMODORO ''600479950316067'' initialScreen)) POMODORO
       = 36028797018964016
   \<and> 600479950316067 * 60 = (36028797018964020 :: int)"
proof -
  have a: "tempTimerDurations (handleTempDurationChange POMODORO t initialScreen) POMODORO = t" for t
    by (simp add: handleTempDurationChange_def)
  have p: "parseInt ''12abc'' = Some 12" "parseInt ''5.9'' = Some 5"
    "parseInt ''600479950316067'' = Some 600479950316067"
    by (simp_all add: parseInt_def isWhiteSpace_def isDigit_def digitsValue_def roundToDouble_small)
  have r: "roundToDouble 720 = 720" "roundToDouble 300 = 300"
    by (simp_all add: roundToDouble_small)
  show ?thesis
    by (simp add: timerDurations_handleSaveSettings newDurations_at a p r
        roundToDouble_examples INITIAL_TIMER_TYPES_def)
qed

section \<open>Progress ratio\<close>




section \<open>The bound on the time left\<close>

lemma numbersOk_durations: "numbersOk s \<Longrightarrow> isDouble (timerDurations s type)"
  by (cases type) (simp_all add: numbersOk_def)

lemma numbersOk_initialScreen: "numbersOk initialScreen"
  by (simp add: numbersOk_def initialScreen_def INITIAL_TIMER_TYPES_isDouble)

lemma numbersOk_apply_op:
  assumes "numbersOk s" and "numberArg op"
  shows "numbersOk (apply_op op s)"
proof (cases op)
  case IntervalFires
  then show ?thesis
    using assms
    by (auto simp: numbersOk_def intervalFires_def timerEffect_def isDouble_roundToDouble)
next
  case RunEffect
  then show ?thesis
    using assms
    by (simp add: numbersOk_def runEffect_def timerEffect_def phaseCompletion_def Let_def)
next
  case HandleSaveSettings
  then show ?thesis
    using assms by (simp add: numbersOk_def handleSaveSettings_def Let_def newDurations_isDouble)
next
  case (HandleDurationChange type d)
  then show ?thesis
    using assms by (cases type) (simp_all add: numbersOk_def handleDurationChange_def Let_def)
next
  case (SwitchTimerType type)
  then show ?thesis
    using assms numbersOk_durations [OF assms(1), of type]
    by (simp add: numbersOk_def switchTimerType_def)
next
  case ResetTimer
  then show ?thesis
    using assms numbersOk_durations [OF assms(1), of "timerType s"]
    by (simp add: numbersOk_def resetTimer_def)
qed (use assms in \<open>simp_all add: numbersOk_def toggleTimer_def handleTempDurationChange_def\<close>)

lemma timer_inv_apply_op:
  assumes "timer_inv s" and "numbersOk s"
  shows "timer_inv (apply_op op s) = keeps_bound op s"
proof (cases op)
  case IntervalFires
  have "roundToDouble (timeLeft s - 1) \<le> timerDurations s (timerType s)" if "0 < timeLeft s"
  proof -
    have "roundToDouble (timeLeft s - 1) \<le> timeLeft s"
      using that assms(2) by (intro roundToDouble_pred_le) (simp_all add: numbersOk_def)
    then show ?thesis using assms(1) by (simp add: timer_inv_def)
  qed
  then show ?thesis
    using IntervalFires assms(1) by (simp add: timer_inv_def intervalFires_def timerEffect_def)
qed (use assms(1) in \<open>auto simp: timer_inv_def toggleTimer_def resetTimer_def switchTimerType_def
        runEffect_def timerEffect_def phaseCompletion_def Let_def
        handleDurationChange_def handleTempDurationChange_def handleSaveSettings_def\<close>)

lemma run_Cons: "run (op # ops) s = run ops (apply_op op s)"
  by (simp add: run_def)

lemma timer_inv_run:
  "timer_inv s \<Longrightarrow> numbersOk s \<Longrightarrow> admissible ops s \<Longrightarrow>
     timer_inv (run ops s) \<and> numbersOk (run ops s)"
proof (induction ops arbitrary: s)
  case Nil
  then show ?case by (simp add: run_def)
next
  case (Cons op ops)
  then show ?case by (simp add: run_Cons timer_inv_apply_op numbersOk_apply_op)
qed

lemma timer_inv_initialScreen: "timer_inv initialScreen"
  by (simp add: timer_inv_def initialScreen_def)

text \<open>
  Claim C2, as the code has it. In every state reached from the initial one by operations
  none of which lowers the current phase's duration below the time left while the timer runs,
  the time left is at most the duration of the current phase; and a further operation keeps
  that bound exactly when it is not such a change (\<open>keeps_bound\<close>): toggling, resetting,
  switching the phase, a tick, a phase completion, editing a draft, and every save or duration
  change made while the timer is idle keep it. In any state \<open>t\<close>, a save or a duration change
  made while the timer runs stores the new durations and leaves the time left and the phase
  untouched; made while the timer is idle, it reloads the time left from the new duration of
  the current phase.
\<close>

theorem remaining_within_duration:
  assumes "admissible ops initialScreen"
  shows "timer_inv (run ops initialScreen)
    \<and> timer_inv (apply_op op (run ops initialScreen)) = keeps_bound op (run ops initialScreen)
    \<and> timerDurations (handleSaveSettings t) = newDurations (tempTimerDurations t)
    \<and> timerDurations (handleDurationChange type d t) = (timerDurations t)(type := d)
    \<and> timerType (handleSaveSettings t) = timerType t
    \<and> timerType (handleDurationChange type d t) = timerType t
    \<and> (isActive t \<longrightarrow>
          timeLeft (handleSaveSettings t) = timeLeft t
        \<and> timeLeft (handleDurationChange type d t) = timeLeft t)
    \<and> (\<not> isActive t \<longrightarrow>
          timeLeft (handleSaveSettings t) = newDurations (tempTimerDurations t) (timerType t)
        \<and> timeLeft (handleDurationChange type d t) = (if timerType t = type then d else timeLeft t))"
proof -
  have r: "timer_inv (run ops initialScreen)" "numbersOk (run ops initialScreen)"
    using timer_inv_run [OF timer_inv_initialScreen numbersOk_initialScreen assms] by simp_all
  have "timer_inv (apply_op op (run ops initialScreen)) = keeps_bound op (run ops initialScreen)"
    using r by (rule timer_inv_apply_op)
  then show ?thesis
    using r(1) by (simp add: handleSaveSettings_def handleDurationChange_def Let_def)
qed

theorem remaining_within_duration_witness:
  "timer_inv (run [ToggleTimer, IntervalFires, HandleTempDurationChange POMODORO ''30'', HandleSaveSettings] initialScreen)
   \<and> isActive (run [ToggleTimer, IntervalFires, HandleTempDurationChange POMODORO ''30'', HandleSaveSettings] initialScreen)
   \<and> timeLeft (run [ToggleTimer, IntervalFires, HandleTempDurationChange POMODORO ''30'', HandleSaveSettings] initialScreen) = 1499
   \<and> timer_inv (apply_op ResetTimer
        (run [ToggleTimer, IntervalFires, HandleTempDurationChange POMODORO ''30'', HandleSaveSettings] initialScreen))
   \<and> timeLeft (handleSaveSettings
        (run [ToggleTimer, IntervalFires, HandleTempDurationChange POMODORO ''30''] initialScreen)) = 1499"
proof -
  have p: "parseInt ''30'' = Some 30"
    by (simp add: parseInt_def isWhiteSpace_def isDigit_def digitsValue_def roundToDouble_small)
  have r: "roundToDouble 1499 = 1499" "roundToDouble 1800 = 1800"
    by (simp_all add: roundToDouble_small)
  have a: "admissible [ToggleTimer, IntervalFires, HandleTempDurationChange POMODORO ''30'', HandleSaveSettings]
             initialScreen"
    by (simp add: toggleTimer_def intervalFires_def timerEffect_def handleTempDurationChange_def
        newDurations_at p r initialScreen_def INITIAL_TIMER_TYPES_def)
  show ?thesis
    using remaining_within_duration [OF a, of ResetTimer
        "run [ToggleTimer, IntervalFires, HandleTempDurationChange POMODORO ''30''] initialScreen"]
    by (simp add: run_def toggleTimer_def intervalFires_def timerEffect_def r
        handleTempDurationChange_def handleSaveSettings_def Let_def initialScreen_def
        INITIAL_TIMER_TYPES_def)
qed

text \<open>
  Saving one minute for the running 25-minute pomodoro leaves 1500 seconds on a phase of 60.
\<close>

theorem save_while_running_counterexample:
  "timer_inv (run [ToggleTimer, HandleTempDurationChange POMODORO ''1''] initialScreen)
   \<and> isActive (run [ToggleTimer, HandleTempDurationChange POMODORO ''1''] initialScreen)
   \<and> timeLeft (run [ToggleTimer, HandleTempDurationChange POMODORO ''1'', HandleSaveSettings] initialScreen) = 1500
   \<and> timerDurations (run [ToggleTimer, HandleTempDurationChange POMODORO ''1'', HandleSaveSettings] initialScreen) POMODORO = 60
   \<and> \<not> timer_inv (run [ToggleTimer, HandleTempDurationChange POMODORO ''1'', HandleSaveSettings] initialScreen)"
proof -
  have p: "parseInt ''1'' = Some 1"
    by (simp add: parseInt_def isWhiteSpace_def isDigit_def digitsValue_def roundToDouble_small)
  have r: "roundToDouble 60 = 60"
    by (simp add: roundToDouble_small)
  show ?thesis
    by (simp add: run_def toggleTimer_def handleSaveSettings_def handleTempDurationChange_def Let_def
        newDurations_at p r timer_inv_def initialScreen_def INITIAL_TIMER_TYPES_def)
qed

section \<open>Formatting the time left\<close>

lemma js_rem_nonneg: "0 \<le> a \<Longrightarrow> 0 < b \<Longrightarrow> js_rem a b = a mod b"
  by (cases "a = 0") (simp_all add: js_rem_def)

lemma digit_char_cases:
  assumes "d < 10"
  shows "d = 0 \<or> d = 1 \<or> d = 2 \<or> d = 3 \<or> d = 4 \<or> d = 5 \<or> d = 6 \<or> d = 7 \<or> d = 8 \<or> d = (9::nat)"
  using assms by arith

lemma of_char_digit_char: "d < 10 \<Longrightarrow> of_char (digit_char d) = (48 + d :: nat)"
  using digit_char_cases [of d] by (auto simp: digit_char_def)

lemma isDigit_digit_char: "d < 10 \<Longrightarrow> isDigit (digit_char d)"
  by (simp add: isDigit_def of_char_digit_char)

lemma digitsValue_snoc: "digitsValue (ds @ [c]) = 10 * digitsValue ds + (int (of_char c) - 48)"
  by (simp add: digitsValue_def)

lemma digitsValue_nat_toString: "digitsValue (nat_toString n) = int n"
proof (induction n rule: nat_toString.induct)
  case (1 n)
  show ?case
  proof (cases "n < 10")
    case True
    then show ?thesis
      by (subst nat_toString.simps) (simp add: digitsValue_def of_char_digit_char)
  next
    case False
    then have "digitsValue (nat_toString (n div 10)) = int (n div 10)"
      using "1.IH" by simp
    moreover have "10 * (int n div 10) + int (n mod 10) = int n"
      by (simp add: zmod_int)
    ultimately show ?thesis
      using False
      by (subst nat_toString.simps) (simp add: digitsValue_snoc of_char_digit_char zdiv_int)
  qed
qed

lemma digits_nat_toString: "list_all isDigit (nat_toString n)"
proof (induction n rule: nat_toString.induct)
  case (1 n)
  then show ?case
    by (subst nat_toString.simps) (simp add: isDigit_digit_char)
qed

lemma length_nat_toString_pos: "0 < length (nat_toString n)"
  by (subst nat_toString.simps) simp

lemma length_nat_toString_1: "length (nat_toString n) = 1 \<longleftrightarrow> n < 10"
  using length_nat_toString_pos [of "n div 10"]
  by (subst nat_toString.simps) auto

lemma length_nat_toString_2: "length (nat_toString n) = 2 \<longleftrightarrow> 10 \<le> n \<and> n < 100"
proof (cases "n < 10")
  case True
  then show ?thesis using length_nat_toString_1 [of n] by simp
next
  case False
  then have "length (nat_toString n) = Suc (length (nat_toString (n div 10)))"
    by (subst nat_toString.simps) simp
  then show ?thesis
    using False length_nat_toString_1 [of "n div 10"] by auto
qed

lemma padStart_2_zero:
  "padStart 2 ''0'' xs = (if length xs = 0 then ''00'' @ xs else if length xs = 1 then ''0'' @ xs else xs)"
  by (cases xs; cases "tl xs") (auto simp: padStart_def numeral_2_eq_2)

lemma digitsValue_zero_Cons: "digitsValue (CHR ''0'' # xs) = digitsValue xs"
  by (simp add: digitsValue_def)

lemma pad_field:
  "list_all isDigit (padStart 2 ''0'' (nat_toString n))
   \<and> digitsValue (padStart 2 ''0'' (nat_toString n)) = int n
   \<and> 2 \<le> length (padStart 2 ''0'' (nat_toString n))
   \<and> (length (padStart 2 ''0'' (nat_toString n)) = 2 \<longleftrightarrow> n < 100)"
proof -
  have z: "isDigit CHR ''0''" by (simp add: isDigit_def)
  consider "n < 10" | "10 \<le> n \<and> n < 100" | "100 \<le> n" by linarith
  then show ?thesis
  proof cases
    case 1
    then have "length (nat_toString n) = 1"
      using length_nat_toString_1 [of n] by blast
    then show ?thesis
      using 1 digits_nat_toString [of n]
      by (simp add: padStart_2_zero digitsValue_zero_Cons digitsValue_nat_toString z)
  next
    case 2
    then have "length (nat_toString n) = 2"
      using length_nat_toString_2 [of n] by blast
    then show ?thesis
      using 2 digits_nat_toString [of n]
      by (simp add: padStart_2_zero digitsValue_nat_toString)
  next
    case 3
    then have "length (nat_toString n) \<noteq> 1" "length (nat_toString n) \<noteq> 2"
      using length_nat_toString_1 [of n] length_nat_toString_2 [of n] by auto
    then have l: "3 \<le> length (nat_toString n)"
      using length_nat_toString_pos [of n] by linarith
    then have "padStart 2 ''0'' (nat_toString n) = nat_toString n"
      by (simp add: padStart_def)
    then show ?thesis
      using 3 l digits_nat_toString [of n]
      by (simp add: digitsValue_nat_toString)
  qed
qed

text \<open>
  Claim C9, as the code has it. For a number of seconds from 0 to \<open>2 ^ 53\<close> the display is
  the minutes \<open>seconds div 60\<close> and the seconds \<open>seconds mod 60\<close>, joined by a colon, each
  a decimal numeral padded with zeros to at least two digits. The seconds field has exactly
  two digits. The minute field reads as \<open>seconds div 60\<close> (it is neither wrapped nor
  clamped) and has exactly two digits precisely below 100 minutes.
\<close>

theorem format_time:
  assumes "0 \<le> seconds" and "seconds \<le> 2 ^ 53"
  shows "formatTime seconds =
           padStart 2 ''0'' (toString (seconds div 60)) @ '':'' @ padStart 2 ''0'' (toString (seconds mod 60))
    \<and> list_all isDigit (padStart 2 ''0'' (toString (seconds div 60)))
    \<and> digitsValue (padStart 2 ''0'' (toString (seconds div 60))) = seconds div 60
    \<and> 2 \<le> length (padStart 2 ''0'' (toString (seconds div 60)))
    \<and> (length (padStart 2 ''0'' (toString (seconds div 60))) = 2 \<longleftrightarrow> seconds < 6000)
    \<and> list_all isDigit (padStart 2 ''0'' (toString (seconds mod 60)))
    \<and> digitsValue (padStart 2 ''0'' (toString (seconds mod 60))) = seconds mod 60
    \<and> length (padStart 2 ''0'' (toString (seconds mod 60))) = 2"
proof -
  have m: "0 \<le> seconds div 60" and r: "0 \<le> seconds mod 60" "seconds mod 60 < 60"
    using assms(1) by simp_all
  have tm: "toString (seconds div 60) = nat_toString (nat (seconds div 60))"
    and tr: "toString (seconds mod 60) = nat_toString (nat (seconds mod 60))"
    using m r by (simp_all add: toString_def)
  have lt: "nat (seconds div 60) < 100 \<longleftrightarrow> seconds < 6000"
    using assms(1) by auto
  have lr: "nat (seconds mod 60) < 100"
    using r by simp
  have f: "formatTime seconds =
           padStart 2 ''0'' (toString (seconds div 60)) @ '':'' @ padStart 2 ''0'' (toString (seconds mod 60))"
    using assms(1) by (simp add: formatTime_def Let_def js_rem_nonneg)
  show ?thesis
    using pad_field [of "nat (seconds div 60)"] pad_field [of "nat (seconds mod 60)"] m r lt lr
    unfolding f tm tr by simp
qed

theorem format_time_witness:
  "formatTime 1500 = ''25:00'' \<and> formatTime 65 = ''01:05'' \<and> formatTime 3600 = ''60:00''"
  using format_time [of 1500] format_time [of 65] format_time [of 3600]
  by (simp add: toString_def nat_toString.simps padStart_def digit_char_def)

text \<open>A duration of 100 minutes shows a minute field of three digits.\<close>

theorem format_time_hundred_minutes_counterexample:
  "formatTime 6000 = ''100:00''
   \<and> length (takeWhile (\<lambda>c. c \<noteq> CHR '':'') (formatTime 6000)) = 3"
  by (simp add: formatTime_def js_rem_def toString_def nat_toString.simps padStart_def digit_char_def)

section \<open>Adding a task\<close>

lemma fold_max_ge_init: "a \<le> fold max xs (a::nat)"
  by (induction xs arbitrary: a) (auto intro: order_trans [OF max.cobounded2])

lemma fold_max_ge_elem: "x \<in> set xs \<Longrightarrow> x \<le> fold max xs (a::nat)"
proof (induction xs arbitrary: a)
  case Nil
  then show ?case by simp
next
  case (Cons y ys)
  show ?case
  proof (cases "x = y")
    case True
    have "y \<le> max y a" by simp
    also have "\<dots> \<le> fold max ys (max y a)" by (rule fold_max_ge_init)
    finally show ?thesis using True by simp
  next
    case False
    then show ?thesis using Cons by simp
  qed
qed

lemma find_fresh_snoc:
  assumes "\<forall>r \<in> set xs. \<not> P r" and "P y"
  shows "find P (xs @ [y]) = Some y"
  using assms by (induction xs) simp_all

lemma addTask_accepted:
  assumes "trim nm \<noteq> []" and "\<not> insertRejects db" and "\<not> selectRejects db"
  shows "addTask nm prio (db, s) =
    (let newId = Suc (fold max (map row_id (rows db)) (sequence db));
         row = \<lparr> row_id = newId, row_name = trim nm, row_completed = 0, row_priority = prio,
                 row_pomodoroSessions = 0, row_createdAt = currentTimestamp db \<rparr>
     in (db\<lparr>rows := rows db @ [row], sequence := newId\<rparr>, s\<lparr>tasks := tasks s @ [toTask row]\<rparr>))"
proof -
  define newId where "newId = Suc (fold max (map row_id (rows db)) (sequence db))"
  define row where "row = \<lparr> row_id = newId, row_name = trim nm, row_completed = 0,
    row_priority = prio, row_pomodoroSessions = 0, row_createdAt = currentTimestamp db \<rparr>"
  have fresh: "\<forall>r \<in> set (rows db). row_id r \<noteq> newId"
  proof
    fix r assume "r \<in> set (rows db)"
    then have "row_id r \<le> fold max (map row_id (rows db)) (sequence db)"
      by (intro fold_max_ge_elem) simp
    then show "row_id r \<noteq> newId" by (simp add: newId_def)
  qed
  have ins: "runInsert db (trim nm) prio = Inr (db\<lparr>rows := rows db @ [row], sequence := newId\<rparr>, newId)"
    using assms(2) by (simp add: runInsert_def Let_def newId_def row_def)
  have "find (\<lambda>r. row_id r = newId) (rows db @ [row]) = Some row"
    using fresh by (intro find_fresh_snoc) (simp_all add: row_def)
  then have sel: "getFirstById (db\<lparr>rows := rows db @ [row], sequence := newId\<rparr>) newId = Inr (Some row)"
    using assms(3) by (simp add: getFirstById_def)
  show ?thesis
    using assms(1) by (simp add: addTask_def ins sel Let_def flip: newId_def row_def)
qed

lemma addTask_insert_rejected: "insertRejects db \<Longrightarrow> addTask nm prio (db, s) = (db, s)"
  by (simp add: addTask_def runInsert_def)

text \<open>
  Claim C7. A name whose trimmed form is empty changes neither the store nor the task list.
  For a name with a non-empty trimmed form, when the store accepts the insert and answers the
  select, \<open>addTask\<close> adds one row with a fresh id, the trimmed name, the given priority,
  \<open>completed = 0\<close> and \<open>pomodoroSessions = 0\<close>, and appends that record (with
  \<open>completed = false\<close>) to the task list in memory, changing nothing else.
\<close>

theorem addTask_empty_or_insert:
  "(trim nm = [] \<longrightarrow> addTask nm prio (db, s) = (db, s))
   \<and> (trim nm \<noteq> [] \<and> \<not> insertRejects db \<and> \<not> selectRejects db \<longrightarrow>
        (\<exists>r. rows (fst (addTask nm prio (db, s))) = rows db @ [r]
           \<and> row_id r \<notin> row_id ` set (rows db)
           \<and> row_name r = trim nm \<and> row_priority r = prio
           \<and> row_completed r = 0 \<and> row_pomodoroSessions r = 0
           \<and> snd (addTask nm prio (db, s)) = s\<lparr>tasks := tasks s @ [toTask r]\<rparr>
           \<and> name (toTask r) = trim nm \<and> priority (toTask r) = prio
           \<and> completed (toTask r) = False \<and> pomodoroSessions (toTask r) = 0
           \<and> task_id (toTask r) = row_id r))"
proof (intro conjI impI)
  assume "trim nm = []"
  then show "addTask nm prio (db, s) = (db, s)"
    by (simp add: addTask_def)
next
  assume a: "trim nm \<noteq> [] \<and> \<not> insertRejects db \<and> \<not> selectRejects db"
  define newId where "newId = Suc (fold max (map row_id (rows db)) (sequence db))"
  define row where "row = \<lparr> row_id = newId, row_name = trim nm, row_completed = 0,
    row_priority = prio, row_pomodoroSessions = 0, row_createdAt = currentTimestamp db \<rparr>"
  have fresh: "row_id row \<notin> row_id ` set (rows db)"
  proof
    assume "row_id row \<in> row_id ` set (rows db)"
    then have "row_id row \<in> set (map row_id (rows db))" by simp
    then have "row_id row \<le> fold max (map row_id (rows db)) (sequence db)"
      by (rule fold_max_ge_elem)
    then show False by (simp add: row_def newId_def)
  qed
  have "addTask nm prio (db, s) =
      (db\<lparr>rows := rows db @ [row], sequence := newId\<rparr>, s\<lparr>tasks := tasks s @ [toTask row]\<rparr>)"
    using a addTask_accepted [of nm db prio s] by (simp add: Let_def newId_def row_def)
  then show "\<exists>r. rows (fst (addTask nm prio (db, s))) = rows db @ [r]
           \<and> row_id r \<notin> row_id ` set (rows db)
           \<and> row_name r = trim nm \<and> row_priority r = prio
           \<and> row_completed r = 0 \<and> row_pomodoroSessions r = 0
           \<and> snd (addTask nm prio (db, s)) = s\<lparr>tasks := tasks s @ [toTask r]\<rparr>
           \<and> name (toTask r) = trim nm \<and> priority (toTask r) = prio
           \<and> completed (toTask r) = False \<and> pomodoroSessions (toTask r) = 0
           \<and> task_id (toTask r) = row_id r"
    using fresh by (intro exI [of _ row]) (simp add: row_def toTask_def)
qed

theorem addTask_empty_or_insert_witness:
  "addTask ''   '' 1 (emptyDatabase, initialScreen) = (emptyDatabase, initialScreen)
   \<and> map row_name (rows (fst (addTask '' Write spec '' 3 (emptyDatabase, initialScreen)))) = [''Write spec'']
   \<and> map name (tasks (snd (addTask '' Write spec '' 3 (emptyDatabase, initialScreen)))) = [''Write spec'']
   \<and> map priority (tasks (snd (addTask '' Write spec '' 3 (emptyDatabase, initialScreen)))) = [3]
   \<and> map completed (tasks (snd (addTask '' Write spec '' 3 (emptyDatabase, initialScreen)))) = [False]"
proof -
  have t: "trim ''   '' = []" "trim '' Write spec '' = ''Write spec''"
    by (simp_all add: trim_def isWhiteSpace_def)
  show ?thesis
    using addTask_empty_or_insert [of "''   ''" 1 emptyDatabase initialScreen]
      addTask_empty_or_insert [of "'' Write spec ''" 3 emptyDatabase initialScreen]
    by (auto simp: t emptyDatabase_def initialScreen_def)
qed

text \<open>
  Claim C10. After an accepted \<open>addTask\<close> the new record is the last element of the task
  list in memory whatever its priority, so if some task already listed has a lower priority
  the list is not in descending order of priority.
\<close>

theorem addTask_appends_last:
  assumes "trim nm \<noteq> []" and "\<not> insertRejects db" and "\<not> selectRejects db"
  shows "tasks (snd (addTask nm prio (db, s))) =
           tasks s @ [last (tasks (snd (addTask nm prio (db, s))))]
    \<and> name (last (tasks (snd (addTask nm prio (db, s))))) = trim nm
    \<and> priority (last (tasks (snd (addTask nm prio (db, s))))) = prio
    \<and> ((\<exists>t \<in> set (tasks s). priority t < prio) \<longrightarrow>
          \<not> priorityDescending (tasks (snd (addTask nm prio (db, s)))))"
proof -
  obtain t where t: "tasks (snd (addTask nm prio (db, s))) = tasks s @ [t]"
    "name t = trim nm" "priority t = prio"
    using assms by (simp add: addTask_accepted Let_def toTask_def)
  have "\<not> priorityDescending (tasks s @ [t])" if "\<exists>u \<in> set (tasks s). priority u < prio"
  proof -
    from that obtain u where "u \<in> set (tasks s)" "priority u < priority t"
      using t(3) by blast
    then have "\<not> (\<forall>x \<in> set (tasks s). priority x \<ge> priority t)"
      by force
    then show ?thesis
      by (simp add: priorityDescending_def sorted_wrt_append)
  qed
  then show ?thesis
    using t by simp
qed

theorem addTask_appends_last_witness:
  "map priority (tasks (snd (addTask ''urgent'' 5 (addTask ''later'' 1 (emptyDatabase, initialScreen))))) = [1, 5]
   \<and> \<not> priorityDescending
        (tasks (snd (addTask ''urgent'' 5 (addTask ''later'' 1 (emptyDatabase, initialScreen)))))"
proof -
  define db1 where "db1 = fst (addTask ''later'' 1 (emptyDatabase, initialScreen))"
  define s1 where "s1 = snd (addTask ''later'' 1 (emptyDatabase, initialScreen))"
  have t: "trim ''later'' = ''later''" "trim ''urgent'' = ''urgent''"
    by (simp_all add: trim_def isWhiteSpace_def)
  have first: "addTask ''later'' 1 (emptyDatabase, initialScreen) = (db1, s1)"
    by (simp add: db1_def s1_def)
  have db1: "\<not> insertRejects db1" "\<not> selectRejects db1"
    by (simp_all add: db1_def addTask_accepted t emptyDatabase_def Let_def)
  have s1: "map priority (tasks s1) = [1]"
    by (simp add: s1_def addTask_accepted t emptyDatabase_def initialScreen_def Let_def toTask_def)
  then have ex: "\<exists>t \<in> set (tasks s1). priority t < 5"
    by (cases "tasks s1") auto
  have u: "trim ''urgent'' \<noteq> []"
    by (simp add: t)
  note th = addTask_appends_last [OF u db1, of 5 s1]
  have e: "tasks (snd (addTask ''urgent'' 5 (db1, s1))) =
             tasks s1 @ [last (tasks (snd (addTask ''urgent'' 5 (db1, s1))))]"
    and p: "priority (last (tasks (snd (addTask ''urgent'' 5 (db1, s1))))) = 5"
    and n: "\<not> priorityDescending (tasks (snd (addTask ''urgent'' 5 (db1, s1))))"
    using th ex by blast+
  have "map priority (tasks (snd (addTask ''urgent'' 5 (db1, s1)))) = [1, 5]"
    by (subst e) (simp add: p s1)
  then show ?thesis
    using n by (simp only: first simp_thms)
qed

section \<open>Counting down\<close>

lemma second_counting:
  assumes "isActive s" and "1 < timeLeft s" and "timeLeft s \<le> 2 ^ 53"
  shows "second s = s\<lparr>timeLeft := timeLeft s - 1\<rparr>" and "\<not> completes (intervalFires s)"
proof -
  have "\<bar>timeLeft s - 1\<bar> < 2 ^ 53" using assms(2,3) by simp
  then have "roundToDouble (timeLeft s - 1) = timeLeft s - 1" by (rule roundToDouble_small)
  then show "second s = s\<lparr>timeLeft := timeLeft s - 1\<rparr>" and "\<not> completes (intervalFires s)"
    using assms(1,2)
    by (simp_all add: second_def runEffect_def completes_def intervalFires_def timerEffect_def)
qed

lemma second_last:
  assumes "isActive s" and "timeLeft s = 1"
  shows "intervalFires s = s\<lparr>timeLeft := 0\<rparr>" and "completes (intervalFires s)"
    and "second s = phaseCompletion (s\<lparr>timeLeft := 0\<rparr>)"
  using assms
  by (simp_all add: second_def runEffect_def completes_def intervalFires_def timerEffect_def
      roundToDouble_small)

lemma second_idle:
  assumes "\<not> isActive s"
  shows "second s = s" and "\<not> completes (intervalFires s)"
  using assms by (simp_all add: second_def runEffect_def completes_def intervalFires_def timerEffect_def)

lemma completions_idle: "\<not> isActive s \<Longrightarrow> completions n s = 0"
  by (induction n) (simp_all add: second_idle)

lemma second_stalled:
  assumes "second s = s" and "\<not> completes (intervalFires s)"
  shows "(second ^^ n) s = s" and "completions n s = 0"
  using assms by (induction n) simp_all

lemma isActive_phaseCompletion: "\<not> isActive (phaseCompletion s)"
  by (simp add: phaseCompletion_def Let_def)

lemma counting_down:
  "isActive s \<Longrightarrow> timeLeft s = int D \<Longrightarrow> int D \<le> 2 ^ 53 \<Longrightarrow> k < D \<Longrightarrow>
     (second ^^ k) s = s\<lparr>timeLeft := int D - int k\<rparr> \<and> completions k s = 0"
proof (induction k arbitrary: s D)
  case 0
  then show ?case by simp
next
  case (Suc k)
  then have big: "1 < timeLeft s" and small: "timeLeft s \<le> 2 ^ 53" by simp_all
  let ?s' = "s\<lparr>timeLeft := timeLeft s - 1\<rparr>"
  have step: "second s = ?s'" "\<not> completes (intervalFires s)"
    using second_counting [OF Suc.prems(1) big small] by simp_all
  have "isActive ?s'" "timeLeft ?s' = int (D - 1)" "int (D - 1) \<le> 2 ^ 53" "k < D - 1"
    using Suc.prems by simp_all
  from Suc.IH [OF this]
  have "(second ^^ k) ?s' = ?s'\<lparr>timeLeft := int (D - 1) - int k\<rparr>" "completions k ?s' = 0"
    by simp_all
  then show ?case
    using step Suc.prems by (simp add: funpow_swap1 of_nat_diff)
qed

lemma completions_add: "completions (m + n) s = completions m s + completions n ((second ^^ m) s)"
  by (induction m arbitrary: s) (simp_all add: funpow_swap1)

text \<open>
  Claim C3, as the code has it. Let the current phase have a duration \<open>D\<close> with
  \<open>0 < D \<le> 2 ^ 53\<close>, and let the timer be reset and started. During the first \<open>D - 1\<close>
  seconds the time left goes down by one each second and no phase completion fires. The
  \<open>D\<close>-th tick stores exactly 0; the effect of that render completes the phase, which stops
  the timer, so over any \<open>n \<ge> D\<close> seconds exactly one completion has fired.
\<close>

theorem countdown_completes_once:
  assumes "0 < D" and "int D \<le> 2 ^ 53" and "timerDurations s0 (timerType s0) = int D"
  shows "isActive (toggleTimer (resetTimer s0))
    \<and> timeLeft (toggleTimer (resetTimer s0)) = int D
    \<and> (\<forall>k<D. timeLeft ((second ^^ k) (toggleTimer (resetTimer s0))) = int D - int k
              \<and> completions k (toggleTimer (resetTimer s0)) = 0)
    \<and> timeLeft (intervalFires ((second ^^ (D - 1)) (toggleTimer (resetTimer s0)))) = 0
    \<and> completes (intervalFires ((second ^^ (D - 1)) (toggleTimer (resetTimer s0))))
    \<and> (second ^^ D) (toggleTimer (resetTimer s0)) =
         phaseCompletion (toggleTimer (resetTimer s0)\<lparr>timeLeft := 0\<rparr>)
    \<and> (\<forall>n\<ge>D. completions n (toggleTimer (resetTimer s0)) = 1)"
proof -
  define s where "s = toggleTimer (resetTimer s0)"
  have act: "isActive s" and left: "timeLeft s = int D"
    using assms by (simp_all add: s_def toggleTimer_def resetTimer_def)
  have before: "(second ^^ k) s = s\<lparr>timeLeft := int D - int k\<rparr> \<and> completions k s = 0" if "k < D" for k
    using counting_down [OF act left assms(2) that] .
  let ?p = "s\<lparr>timeLeft := 1\<rparr>"
  have pen: "(second ^^ (D - 1)) s = ?p" "completions (D - 1) s = 0"
    using before [of "D - 1"] assms(1) by (simp_all add: of_nat_diff)
  have lastp: "intervalFires ?p = s\<lparr>timeLeft := 0\<rparr>" "completes (intervalFires ?p)"
    "second ?p = phaseCompletion (s\<lparr>timeLeft := 0\<rparr>)"
    using second_last [of ?p] act by simp_all
  obtain D' where D: "D = Suc D'"
    using assms(1) by (cases D) simp_all
  have atD: "(second ^^ D) s = phaseCompletion (s\<lparr>timeLeft := 0\<rparr>)"
    using pen lastp by (simp add: D)
  have cD: "completions D s = 1"
    using completions_add [of D' 1 s] pen lastp by (simp add: D)
  have after: "completions n s = 1" if "D \<le> n" for n
  proof -
    have "n = D + (n - D)" using that by simp
    then have "completions n s = completions D s + completions (n - D) ((second ^^ D) s)"
      using completions_add [of D "n - D" s] by simp
    then show ?thesis
      by (simp add: cD atD completions_idle isActive_phaseCompletion)
  qed
  show ?thesis
    unfolding s_def [symmetric]
    using act left before after pen lastp atD by simp
qed

theorem countdown_completes_once_witness:
  "timeLeft (toggleTimer (resetTimer (initialScreen\<lparr>timerDurations := (\<lambda>_. 2)\<rparr>))) = 2
   \<and> completions 1 (toggleTimer (resetTimer (initialScreen\<lparr>timerDurations := (\<lambda>_. 2)\<rparr>))) = 0
   \<and> completions 2 (toggleTimer (resetTimer (initialScreen\<lparr>timerDurations := (\<lambda>_. 2)\<rparr>))) = 1
   \<and> completions 5 (toggleTimer (resetTimer (initialScreen\<lparr>timerDurations := (\<lambda>_. 2)\<rparr>))) = 1
   \<and> timeLeft (intervalFires (second (toggleTimer (resetTimer (initialScreen\<lparr>timerDurations := (\<lambda>_. 2)\<rparr>))))) = 0"
proof -
  let ?S = "toggleTimer (resetTimer (initialScreen\<lparr>timerDurations := (\<lambda>_. 2)\<rparr>))"
  have d: "timerDurations (initialScreen\<lparr>timerDurations := (\<lambda>_. 2)\<rparr>)
             (timerType (initialScreen\<lparr>timerDurations := (\<lambda>_. 2)\<rparr>)) = int 2"
    by simp
  have z: "0 < (2::nat)" "int 2 \<le> 2 ^ 53" by simp_all
  note th = countdown_completes_once [OF z d]
  have l: "timeLeft ?S = int 2"
    and b: "\<forall>k<2. timeLeft ((second ^^ k) ?S) = int 2 - int k \<and> completions k ?S = 0"
    and f: "timeLeft (intervalFires ((second ^^ (2 - 1)) ?S)) = 0"
    and a: "\<forall>n\<ge>2. completions n ?S = 1"
    using th by blast+
  have "completions 1 ?S = 0" using b [rule_format, of 1] by simp
  moreover have "completions 2 ?S = 1" using a [rule_format, of 2] by simp
  moreover have "completions 5 ?S = 1" using a [rule_format, of 5] by simp
  moreover have "timeLeft (intervalFires (second ?S)) = 0" using f by simp
  ultimately show ?thesis using l by simp
qed

text \<open>
  Above \<open>2 ^ 53\<close> the claim fails. After 150119987579017 minutes are saved for the
  pomodoro, its duration is 9007199254741020 seconds; the tick's \<open>timeLeft - 1\<close> rounds back
  to the same double, so the time left never moves and no completion ever fires.
\<close>

theorem countdown_stalls_counterexample:
  "timerDurations (toggleTimer (resetTimer (handleSaveSettings
       (handleTempDurationChange POMODORO ''150119987579017'' initialScreen)))) POMODORO
     = 9007199254741020
   \<and> isActive (toggleTimer (resetTimer (handleSaveSettings
       (handleTempDurationChange POMODORO ''150119987579017'' initialScreen))))
   \<and> timeLeft (toggleTimer (resetTimer (handleSaveSettings
       (handleTempDurationChange POMODORO ''150119987579017'' initialScreen))))
     = 9007199254741020
   \<and> timeLeft ((second ^^ 9007199254741020) (toggleTimer (resetTimer (handleSaveSettings
       (handleTempDurationChange POMODORO ''150119987579017'' initialScreen)))))
     = 9007199254741020
   \<and> completions 9007199254741020 (toggleTimer (resetTimer (handleSaveSettings
       (handleTempDurationChange POMODORO ''150119987579017'' initialScreen))))
     = 0"
proof -
  define S where "S = toggleTimer (resetTimer (handleSaveSettings
       (handleTempDurationChange POMODORO ''150119987579017'' initialScreen)))"
  have p: "parseInt ''150119987579017'' = Some 150119987579017"
    by (simp add: parseInt_def isWhiteSpace_def isDigit_def digitsValue_def roundToDouble_small)
  have e: "expo 9007199254741020 = 1"
    by (simp add: expo.simps)
  have r: "roundToDouble 9007199254741020 = 9007199254741020"
    by (simp add: roundToDouble_def Let_def e)
  have d: "timerDurations S POMODORO = 9007199254741020"
    by (simp add: S_def toggleTimer_def resetTimer_def handleSaveSettings_def
        handleTempDurationChange_def Let_def newDurations_at p r)
  have t: "timerType S = POMODORO" "isActive S"
    by (simp_all add: S_def toggleTimer_def resetTimer_def handleSaveSettings_def
        handleTempDurationChange_def Let_def initialScreen_def)
  have l: "timeLeft S = 9007199254741020"
    by (simp add: S_def toggleTimer_def resetTimer_def handleSaveSettings_def
        handleTempDurationChange_def Let_def newDurations_at p r initialScreen_def)
  have tick: "roundToDouble (timeLeft S - 1) = timeLeft S"
    by (simp add: l roundToDouble_examples)
  have pos: "0 < timeLeft S"
    by (simp add: l)
  have "intervalFires S = S\<lparr>timeLeft := roundToDouble (timeLeft S - 1)\<rparr>"
    using t pos by (simp add: intervalFires_def timerEffect_def)
  then have i: "intervalFires S = S"
    by (simp only: tick) simp
  have c: "\<not> completes (intervalFires S)"
    using t pos by (simp add: i completes_def timerEffect_def)
  have s: "second S = S"
    using t pos by (simp add: second_def i runEffect_def timerEffect_def)
  show ?thesis
    unfolding S_def [symmetric]
    using second_stalled [OF s c, of 9007199254741020] d t l by simp
qed

end
